theory Spec2Isabelle
  imports Complex_Main
begin

section \<open>JavaScript numbers\<close>

text \<open>
  The detector computes on JavaScript numbers. Finite values are modelled as exact reals
  (the rounding error of IEEE-754 arithmetic is not part of the model); the non-finite
  results that a division by zero produces are kept as separate values, since HOL's
  own \<open>a / 0 = 0\<close> is not what the program computes. Values produced by
  \<open>Math.round\<close> are integers and are typed as \<open>int\<close>.
\<close>

datatype jsnum = Finite real | PosInfinity | NegInfinity | NaN

definition js_div :: "real \<Rightarrow> real \<Rightarrow> jsnum" where
  "js_div a b =
     (if b \<noteq> 0 then Finite (a / b)
      else if 0 < a then PosInfinity
      else if a < 0 then NegInfinity
      else NaN)"

text \<open>\<open>Math.round\<close>: the nearest integer, a tie going towards plus infinity.\<close>

definition Math_round :: "real \<Rightarrow> int" where
  "Math_round r = \<lfloor>r + 1 / 2\<rfloor>"

text \<open>\<open>Math.round(a * 100) / 100\<close>; a non-finite \<open>a\<close> comes back unchanged.\<close>

fun round_hundredths :: "jsnum \<Rightarrow> jsnum" where
  "round_hundredths (Finite a) = Finite (of_int (Math_round (a * 100)) / 100)"
| "round_hundredths PosInfinity = PosInfinity"
| "round_hundredths NegInfinity = NegInfinity"
| "round_hundredths NaN = NaN"

text \<open>\<open>d < m\<close> for a finite \<open>d\<close> and a possibly non-finite \<open>m\<close>.\<close>

fun js_less :: "real \<Rightarrow> jsnum \<Rightarrow> bool" where
  "js_less d (Finite m) = (d < m)"
| "js_less d PosInfinity = True"
| "js_less d NegInfinity = False"
| "js_less d NaN = False"

text \<open>The decimal digits that a template literal prints for a natural number.\<close>

definition digit_char :: "nat \<Rightarrow> char" where
  "digit_char d = char_of (48 + d)"

function decimal :: "nat \<Rightarrow> string" where
  "decimal n =
     (if 10 \<le> n then decimal (n div 10) @ [digit_char (n mod 10)] else [digit_char n])"
  by pat_completeness auto
termination
  by (relation "measure id") auto

declare decimal.simps [simp del]

section \<open>Data model (objectDetection.ts)\<close>

text \<open>
  One raw prediction of the COCO-SSD model: \<open>bbox = [x, y, width, height]\<close>, \<open>class\<close>
  and \<open>score\<close>.
\<close>

record DetectedObject =
  bbox :: "real \<times> real \<times> real \<times> real"
  class_name :: string
  score :: real

text \<open>
  \<open>interface DetectionResult\<close>. The fields \<open>id\<close>, \<open>x\<close>, \<open>y\<close>, \<open>width\<close> and
  \<open>height\<close> carry the prefix \<open>det_\<close>; the optional \<open>trackId\<close> is an option.
\<close>

record DetectionResult =
  det_id :: string
  label :: string
  confidence :: real
  det_x :: int
  det_y :: int
  det_width :: int
  det_height :: int
  centerX :: int
  centerY :: int
  area :: int
  aspectRatio :: jsnum
  trackId :: "nat option"
  timestamp :: nat

datatype error = Error string

text \<open>
  \<open>class ObjectDetector\<close>. The loaded model is the function that its \<open>detect\<close> method
  computes on a frame: it either throws or returns the raw predictions.
\<close>

record 'img ObjectDetector =
  model :: "('img \<Rightarrow> error + DetectedObject list) option"
  isLoading :: bool
  trackingId :: nat
  previousDetections :: "DetectionResult list"

definition new_ObjectDetector :: "'img ObjectDetector" where
  "new_ObjectDetector =
     \<lparr>model = None, isLoading = False, trackingId = 0, previousDetections = []\<rparr>"

section \<open>Operations of the detector\<close>

text \<open>
  \<open>loadModel\<close>. The three awaited calls (\<open>tf.setBackend\<close>, \<open>tf.ready\<close>,
  \<open>cocoSsd.load\<close>) are collaborators; their outcomes are arguments, consumed in the
  order of the source. The \<open>finally\<close> block clears \<open>isLoading\<close> on both paths.
\<close>

definition loadModel ::
  "'img ObjectDetector \<Rightarrow> error + unit \<Rightarrow> error + unit
     \<Rightarrow> error + ('img \<Rightarrow> error + DetectedObject list)
     \<Rightarrow> (error + unit) \<times> 'img ObjectDetector" where
  "loadModel this setBackend ready load =
     (if model this \<noteq> None \<or> isLoading this then (Inr (), this)
      else
        (case setBackend of
           Inl e \<Rightarrow> (Inl e, this\<lparr>isLoading := False\<rparr>)
         | Inr _ \<Rightarrow>
        (case ready of
           Inl e \<Rightarrow> (Inl e, this\<lparr>isLoading := False\<rparr>)
         | Inr _ \<Rightarrow>
        (case load of
           Inl e \<Rightarrow> (Inl e, this\<lparr>isLoading := False\<rparr>)
         | Inr m \<Rightarrow> (Inr (), this\<lparr>model := Some m, isLoading := False\<rparr>)))))"

text \<open>The callback of \<open>predictions.map\<close> in \<open>detectObjects\<close>.\<close>

definition toDetection :: "nat \<Rightarrow> nat \<Rightarrow> DetectedObject \<Rightarrow> DetectionResult" where
  "toDetection ts index prediction =
     (case bbox prediction of (x, y, width, height) \<Rightarrow>
        let cX = x + width / 2;
            cY = y + height / 2;
            ar = width * height;
            ratio = js_div width height
        in \<lparr>det_id = decimal ts @ ''-'' @ decimal index,
            label = class_name prediction,
            confidence = score prediction,
            det_x = Math_round x,
            det_y = Math_round y,
            det_width = Math_round width,
            det_height = Math_round height,
            centerX = Math_round cX,
            centerY = Math_round cY,
            area = Math_round ar,
            aspectRatio = round_hundredths ratio,
            trackId = None,
            timestamp = ts\<rparr>)"

definition toDetections :: "nat \<Rightarrow> DetectedObject list \<Rightarrow> DetectionResult list" where
  "toDetections ts predictions =
     map (\<lambda>(index, prediction). toDetection ts index prediction)
       (zip [0..<length predictions] predictions)"

subsection \<open>assignTrackingIds\<close>

definition Math_pow :: "int \<Rightarrow> nat \<Rightarrow> int" where
  "Math_pow b e = b ^ e"

definition distance :: "DetectionResult \<Rightarrow> DetectionResult \<Rightarrow> real" where
  "distance detection prevDetection =
     sqrt (of_int (Math_pow (centerX detection - centerX prevDetection) 2
                 + Math_pow (centerY detection - centerY prevDetection) 2))"

text \<open>
  The body of the inner \<open>forEach\<close>, on the pair \<open>(bestMatch, minDistance)\<close> of the
  enclosing iteration.
\<close>

definition matchStep ::
  "DetectionResult \<Rightarrow> DetectionResult \<Rightarrow> DetectionResult option \<times> jsnum
     \<Rightarrow> DetectionResult option \<times> jsnum" where
  "matchStep detection prevDetection s =
     (case s of (bestMatch, minDistance) \<Rightarrow>
        if label prevDetection = label detection then
          if js_less (distance detection prevDetection) minDistance
             \<and> distance detection prevDetection < 100
          then (Some prevDetection, Finite (distance detection prevDetection))
          else (bestMatch, minDistance)
        else (bestMatch, minDistance))"

definition findBestMatch ::
  "DetectionResult list \<Rightarrow> DetectionResult \<Rightarrow> DetectionResult option" where
  "findBestMatch previous detection =
     fst (fold (matchStep detection) previous (None, PosInfinity))"

text \<open>
  The body of the outer \<open>forEach\<close>: it writes \<open>trackId\<close> of the detection and, when
  there is no match, pre-increments the counter. The current detections are objects
  created by \<open>detectObjects\<close> in the same call, so none of them is an element of
  \<open>previousDetections\<close> and the in-place write is a functional update.
\<close>

definition assignOne ::
  "DetectionResult list \<Rightarrow> DetectionResult \<Rightarrow> nat \<Rightarrow> DetectionResult \<times> nat" where
  "assignOne previous detection tid =
     (case findBestMatch previous detection of
        Some bestMatch \<Rightarrow> (detection\<lparr>trackId := trackId bestMatch\<rparr>, tid)
      | None \<Rightarrow> (detection\<lparr>trackId := Some (tid + 1)\<rparr>, tid + 1))"

fun assignLoop ::
  "DetectionResult list \<Rightarrow> DetectionResult list \<Rightarrow> nat \<Rightarrow> DetectionResult list \<times> nat" where
  "assignLoop previous [] tid = ([], tid)"
| "assignLoop previous (detection # rest) tid =
     (case assignOne previous detection tid of (d, tid') \<Rightarrow>
        (case assignLoop previous rest tid' of (ds, tid'') \<Rightarrow> (d # ds, tid'')))"

definition assignTrackingIds ::
  "'img ObjectDetector \<Rightarrow> DetectionResult list
     \<Rightarrow> DetectionResult list \<times> 'img ObjectDetector" where
  "assignTrackingIds this currentDetections =
     (case assignLoop (previousDetections this) currentDetections (trackingId this) of
        (trackedDetections, tid) \<Rightarrow> (trackedDetections, this\<lparr>trackingId := tid\<rparr>))"

subsection \<open>detectObjects\<close>

text \<open>
  \<open>Inl\<close> is the rejected promise. \<open>now\<close> is the value that \<open>Date.now()\<close> returns
  after the model call.
\<close>

definition detectObjects ::
  "'img ObjectDetector \<Rightarrow> 'img \<Rightarrow> nat
     \<Rightarrow> (error + DetectionResult list) \<times> 'img ObjectDetector" where
  "detectObjects this imageElement now =
     (case model this of
        None \<Rightarrow> (Inl (Error ''Model not loaded. Call loadModel() first.''), this)
      | Some m \<Rightarrow>
         (case m imageElement of
            Inl e \<Rightarrow> (Inr [], this)
          | Inr predictions \<Rightarrow>
             (case assignTrackingIds this (toDetections now predictions) of
                (trackedDetections, this') \<Rightarrow>
                  (Inr trackedDetections,
                   this'\<lparr>previousDetections := trackedDetections\<rparr>))))"

definition isModelLoaded :: "'img ObjectDetector \<Rightarrow> bool" where
  "isModelLoaded this = (model this \<noteq> None)"

section \<open>The ROI monitor (ROIAlerts.tsx)\<close>

text \<open>
  \<open>interface ROIZone\<close> and the element type of the \<open>alerts\<close> state. The fields \<open>id\<close>,
  \<open>name\<close> and \<open>type\<close> of a zone are \<open>zone_id\<close>, \<open>zone_name\<close> and \<open>zone_type\<close>; the
  fields of \<open>coordinates\<close> carry the prefix \<open>coord_\<close>; \<open>id\<close> and \<open>timestamp\<close> of an alert
  are \<open>alert_id\<close> and \<open>alert_timestamp\<close>.
\<close>

datatype zone_type = restricted | monitored | counting

record Coordinates =
  coord_x :: real
  coord_y :: real
  coord_width :: real
  coord_height :: real

record ROIZone =
  zone_id :: string
  zone_name :: string
  zone_type :: zone_type
  coordinates :: Coordinates
  alertCount :: nat
  isActive :: bool
  color :: string

datatype severity = low | medium | high

record Alert =
  alert_id :: string
  zoneName :: string
  objectType :: string
  alert_timestamp :: nat
  severity :: severity

text \<open>
  The two pieces of React state that the violation check updates.
\<close>

record ROIState =
  zones :: "ROIZone list"
  alerts :: "Alert list"

text \<open>
  The initial values of the two \<open>useState\<close> calls.
\<close>

definition initialZones :: "ROIZone list" where
  "initialZones =
     [\<lparr>zone_id = ''1'', zone_name = ''Restricted Area'', zone_type = restricted,
       coordinates = \<lparr>coord_x = 100, coord_y = 100, coord_width = 200, coord_height = 150\<rparr>,
       alertCount = 0, isActive = True, color = ''#ef4444''\<rparr>,
      \<lparr>zone_id = ''2'', zone_name = ''Monitoring Zone'', zone_type = monitored,
       coordinates = \<lparr>coord_x = 350, coord_y = 200, coord_width = 180, coord_height = 120\<rparr>,
       alertCount = 0, isActive = True, color = ''#f59e0b''\<rparr>]"

definition initialROI :: ROIState where
  "initialROI = \<lparr>zones = initialZones, alerts = []\<rparr>"

text \<open>
  The elements of \<open>detectionResults\<close> are the records that the detector returns; the
  monitor reads their \<open>x\<close>, \<open>y\<close>, \<open>width\<close>, \<open>height\<close>, \<open>id\<close> and \<open>label\<close>.
\<close>

definition detectionCenter :: "DetectionResult \<Rightarrow> real \<times> real" where
  "detectionCenter detection =
     (of_int (det_x detection) + of_int (det_width detection) / 2,
      of_int (det_y detection) + of_int (det_height detection) / 2)"

definition isInZone :: "DetectionResult \<Rightarrow> ROIZone \<Rightarrow> bool" where
  "isInZone detection zone =
     (fst (detectionCenter detection) \<ge> coord_x (coordinates zone)
    \<and> fst (detectionCenter detection) \<le> coord_x (coordinates zone) + coord_width (coordinates zone)
    \<and> snd (detectionCenter detection) \<ge> coord_y (coordinates zone)
    \<and> snd (detectionCenter detection) \<le> coord_y (coordinates zone) + coord_height (coordinates zone))"

text \<open>
  \<open>now\<close> stands for the clock that \<open>Date.now()\<close> and \<open>new Date()\<close> read: a run of the
  check is given one clock value, where the source reads the clock at each alert.
\<close>

definition newAlert :: "nat \<Rightarrow> DetectionResult \<Rightarrow> ROIZone \<Rightarrow> Alert" where
  "newAlert now detection zone =
     \<lparr>alert_id = decimal now @ ''-'' @ det_id detection,
      zoneName = zone_name zone,
      objectType = label detection,
      alert_timestamp = now,
      severity = high\<rparr>"

text \<open>
  The two state updates of the \<open>if\<close> branch: \<open>setAlerts(prev => [newAlert, ...prev.slice(0, 9)])\<close>
  and \<open>setZones(prev => prev.map(...))\<close>. React applies queued updater functions in the order
  of the calls, each to the result of the one before, so the pending state is threaded
  through the loop.
\<close>

definition raiseAlert :: "nat \<Rightarrow> DetectionResult \<Rightarrow> ROIZone \<Rightarrow> ROIState \<Rightarrow> ROIState" where
  "raiseAlert now detection zone s =
     s\<lparr>alerts := newAlert now detection zone # take 9 (alerts s),
       zones := map (\<lambda>z. if zone_id z = zone_id zone then z\<lparr>alertCount := alertCount z + 1\<rparr> else z)
                  (zones s)\<rparr>"

text \<open>
  The body of the inner \<open>forEach\<close>; the first branch is the early \<open>return\<close>.
\<close>

definition checkZone :: "nat \<Rightarrow> DetectionResult \<Rightarrow> ROIZone \<Rightarrow> ROIState \<Rightarrow> ROIState" where
  "checkZone now detection zone s =
     (if \<not> isActive zone then s
      else if isInZone detection zone \<and> zone_type zone = restricted
        then raiseAlert now detection zone s
        else s)"

text \<open>
  One run of the effect. The loops range over the \<open>zones\<close> of the render that the effect
  closes over, which is the state the run starts from. When React runs the effect (after a
  render in which \<open>detectionResults\<close> or \<open>zones\<close> changed) is not part of the model.
\<close>

definition checkViolations :: "nat \<Rightarrow> DetectionResult list \<Rightarrow> ROIState \<Rightarrow> ROIState" where
  "checkViolations now detectionResults s =
     fold (\<lambda>detection. fold (checkZone now detection) (zones s)) detectionResults s"




section \<open>Runs of the detector and the notions of the specification\<close>

text \<open>
  \<open>history this frames\<close>: the detector state \<open>this\<close> is reached from a fresh
  \<open>ObjectDetector\<close> by calls of \<open>loadModel\<close> and \<open>detectObjects\<close>, each running to
  completion before the next, and \<open>frames\<close> lists the detection lists returned so far, the
  latest first.
\<close>

inductive history :: "'img ObjectDetector \<Rightarrow> DetectionResult list list \<Rightarrow> bool" where
  start: "history new_ObjectDetector []"
| load: "history this frames \<Longrightarrow> loadModel this setBackend ready ld = (r, this')
           \<Longrightarrow> history this' frames"
| frame: "history this frames \<Longrightarrow> detectObjects this imageElement now = (Inr out, this')
           \<Longrightarrow> history this' (out # frames)"
| rejected: "history this frames \<Longrightarrow> detectObjects this imageElement now = (Inl e, this')
           \<Longrightarrow> history this' frames"

text \<open>
  A previous detection of the same label whose center is less than 100 pixels away, and the
  nearest such one.
\<close>

definition hasCandidate :: "DetectionResult list \<Rightarrow> DetectionResult \<Rightarrow> bool" where
  "hasCandidate previous d \<longleftrightarrow> (\<exists>p\<in>set previous. label p = label d \<and> distance d p < 100)"

definition nearestWithin :: "DetectionResult list \<Rightarrow> DetectionResult \<Rightarrow> DetectionResult \<Rightarrow> bool" where
  "nearestWithin previous d b \<longleftrightarrow>
     b \<in> set previous \<and> label b = label d \<and> distance d b < 100
   \<and> (\<forall>p\<in>set previous. label p = label d \<longrightarrow> distance d b \<le> distance d p)"

text \<open>
  The center of a detection lies in the rectangle of a zone, its boundary included.
\<close>

definition centerInside :: "DetectionResult \<Rightarrow> ROIZone \<Rightarrow> bool" where
  "centerInside d z \<longleftrightarrow>
     (let cx = real_of_int (det_x d) + real_of_int (det_width d) / 2;
          cy = real_of_int (det_y d) + real_of_int (det_height d) / 2;
          x0 = coord_x (coordinates z); y0 = coord_y (coordinates z);
          w = coord_width (coordinates z); h = coord_height (coordinates z)
      in x0 \<le> cx \<and> cx \<le> x0 + w \<and> y0 \<le> cy \<and> cy \<le> y0 + h)"

definition alertDue :: "DetectionResult \<Rightarrow> ROIZone \<Rightarrow> bool" where
  "alertDue d z \<longleftrightarrow> isActive z \<and> zone_type z = restricted \<and> centerInside d z"

text \<open>
  A violation is one execution of the \<open>if\<close> branch of the check: the clock value, the
  detection and the zone. \<open>raiseSeq\<close> performs the state updates of a sequence of
  violations in order, \<open>violations\<close> lists the pairs of a run that the specification
  asks an alert for, in the order of the nested loops.
\<close>

type_synonym violation = "nat \<times> DetectionResult \<times> ROIZone"

definition raiseSeq :: "violation list \<Rightarrow> ROIState \<Rightarrow> ROIState" where
  "raiseSeq vs s = fold (\<lambda>(now, d, z). raiseAlert now d z) vs s"

definition violations :: "nat \<Rightarrow> DetectionResult list \<Rightarrow> ROIZone list \<Rightarrow> violation list" where
  "violations now ds zs = map (Pair now) (filter (\<lambda>(d, z). alertDue d z) (List.product ds zs))"


section \<open>Auxiliary notions of the proofs\<close>

definition matchInv :: "DetectionResult \<Rightarrow> DetectionResult set \<Rightarrow> DetectionResult option \<times> jsnum \<Rightarrow> bool" where
  "matchInv d seen s =
     (case s of
        (None, md) \<Rightarrow> md = PosInfinity \<and> (\<forall>p\<in>seen. label p = label d \<longrightarrow> \<not> distance d p < 100)
      | (Some b, md) \<Rightarrow> md = Finite (distance d b) \<and> b \<in> seen \<and> label b = label d
           \<and> distance d b < 100
           \<and> (\<forall>p\<in>seen. label p = label d \<longrightarrow> distance d b \<le> distance d p))"

text \<open>
  The number of detections of a list that find no match, and the track id that the
  detection at position \<open>i\<close> receives.
\<close>

definition freshCount :: "DetectionResult list \<Rightarrow> DetectionResult list \<Rightarrow> nat" where
  "freshCount previous ds = length (filter (\<lambda>e. findBestMatch previous e = None) ds)"

definition assignedId :: "DetectionResult list \<Rightarrow> nat \<Rightarrow> DetectionResult list \<Rightarrow> nat \<Rightarrow> nat option" where
  "assignedId previous tid cur i =
     (case findBestMatch previous (cur ! i) of
        Some b \<Rightarrow> trackId b
      | None \<Rightarrow> Some (tid + freshCount previous (take (Suc i) cur)))"

definition idsBounded :: "DetectionResult set \<Rightarrow> nat \<Rightarrow> bool" where
  "idsBounded H tid \<longleftrightarrow> (\<forall>e\<in>H. \<exists>k. trackId e = Some k \<and> 1 \<le> k \<and> k \<le> tid)"

definition idsKeepLabel :: "DetectionResult set \<Rightarrow> bool" where
  "idsKeepLabel H \<longleftrightarrow> (\<forall>e\<in>H. \<forall>e'\<in>H. trackId e = trackId e' \<longrightarrow> label e = label e')"

definition trackerInv :: "'img ObjectDetector \<Rightarrow> DetectionResult list list \<Rightarrow> bool" where
  "trackerInv this frames \<longleftrightarrow>
     set (previousDetections this) \<subseteq> set (concat frames)
   \<and> idsBounded (set (concat frames)) (trackingId this)
   \<and> idsKeepLabel (set (concat frames))"

definition bump :: "string \<Rightarrow> nat \<Rightarrow> ROIZone \<Rightarrow> ROIZone" where
  "bump zid n z = (if zone_id z = zid then z\<lparr>alertCount := alertCount z + n\<rparr> else z)"

section \<open>Example data\<close>

definition person_at :: "real \<Rightarrow> real \<Rightarrow> DetectedObject" where
  "person_at x y = \<lparr>bbox = (x, y, 50, 100), class_name = ''person'', score = 9 / 10\<rparr>"

definition car_at :: "real \<Rightarrow> real \<Rightarrow> DetectedObject" where
  "car_at x y = \<lparr>bbox = (x, y, 50, 100), class_name = ''car'', score = 8 / 10\<rparr>"

text \<open>
  A stub model: a frame either carries the predictions that the model returns for it, or
  makes the model call throw.
\<close>

definition stub_model :: "DetectedObject list option \<Rightarrow> error + DetectedObject list" where
  "stub_model frame =
     (case frame of None \<Rightarrow> Inl (Error ''inference failed'') | Some ps \<Rightarrow> Inr ps)"

text \<open>
  A detector after a successful \<open>loadModel\<close>, and after a first frame with one person,
  whose record has center (125, 150) and track id 1.
\<close>

definition loaded_detector :: "DetectedObject list option ObjectDetector" where
  "loaded_detector = snd (loadModel new_ObjectDetector (Inr ()) (Inr ()) (Inr stub_model))"

definition after_first_frame :: "DetectedObject list option ObjectDetector" where
  "after_first_frame = snd (detectObjects loaded_detector (Some [person_at 100 100]) 1000)"

definition first_frame :: "DetectionResult list" where
  "first_frame = [(toDetection 1000 0 (person_at 100 100))\<lparr>trackId := Some 1\<rparr>]"

definition second_frame :: "DetectedObject list" where
  "second_frame = [person_at 110 100, car_at 100 100]"

definition two_near :: "DetectedObject list" where
  "two_near = [person_at 110 100, person_at 90 120]"

definition car_frame :: "DetectedObject list" where
  "car_frame = [car_at 100 100]"

definition spec_example :: DetectedObject where
  "spec_example = \<lparr>bbox = (100, 100, 50, 100), class_name = ''person'', score = 9 / 10\<rparr>"

text \<open>
  A detection whose center (300, 150) lies on the right edge of the first initial zone, and
  eleven violations of that zone at the clock values 1 to 11.
\<close>

definition on_boundary :: DetectionResult where
  "on_boundary =
     (toDetection 1000 0 \<lparr>bbox = (275, 100, 50, 100), class_name = ''person'', score = 9 / 10\<rparr>)
       \<lparr>trackId := Some 1\<rparr>"


section \<open>Properties of the matching loop\<close>

lemma matchInv_step:
  "matchInv d seen s \<Longrightarrow> matchInv d (insert p seen) (matchStep d p s)"
  by (cases s; cases "fst s") (auto simp: matchInv_def matchStep_def)

lemma matchInv_fold:
  "matchInv d (set xs) (fold (matchStep d) xs (None, PosInfinity))"
proof (induction xs rule: rev_induct)
  case Nil
  show ?case by (simp add: matchInv_def)
next
  case (snoc p xs)
  from matchInv_step [OF snoc.IH, of p] show ?case by simp
qed

lemma findBestMatch_None_iff:
  "findBestMatch previous d = None
     \<longleftrightarrow> (\<forall>p\<in>set previous. label p = label d \<longrightarrow> \<not> distance d p < 100)"
  using matchInv_fold [of d previous]
  by (cases "fold (matchStep d) previous (None, PosInfinity)"; cases "findBestMatch previous d")
     (auto simp: findBestMatch_def matchInv_def)

lemma findBestMatch_Some:
  assumes "findBestMatch previous d = Some b"
  shows "b \<in> set previous" "label b = label d" "distance d b < 100"
    "\<forall>p\<in>set previous. label p = label d \<longrightarrow> distance d b \<le> distance d p"
  using matchInv_fold [of d previous] assms
  by (cases "fold (matchStep d) previous (None, PosInfinity)"; auto simp: findBestMatch_def matchInv_def)+

section \<open>Properties of the assignment loop\<close>

lemma freshCount_Nil [simp]: "freshCount previous [] = 0"
  by (simp add: freshCount_def)

lemma freshCount_Cons:
  "freshCount previous (d # ds) =
     (if findBestMatch previous d = None then 1 else 0) + freshCount previous ds"
  by (simp add: freshCount_def)

lemma assignLoop_length:
  "assignLoop previous cur tid = (out, tid') \<Longrightarrow> length out = length cur"
  by (induction cur arbitrary: tid out) (fastforce split: prod.splits)+

lemma assignLoop_counter:
  "assignLoop previous cur tid = (out, tid') \<Longrightarrow> tid' = tid + freshCount previous cur"
  by (induction cur arbitrary: tid out)
     (fastforce simp: assignOne_def freshCount_Cons split: prod.splits option.splits)+

lemma assignLoop_nth:
  "assignLoop previous cur tid = (out, tid') \<Longrightarrow> i < length cur \<Longrightarrow>
   out ! i = (cur ! i)\<lparr>trackId := assignedId previous tid cur i\<rparr>"
proof (induction cur arbitrary: tid i out)
  case Nil
  then show ?case by simp
next
  case (Cons d ds)
  obtain d' t1 where one: "assignOne previous d tid = (d', t1)"
    by (cases "assignOne previous d tid")
  obtain ds' t2 where rest: "assignLoop previous ds t1 = (ds', t2)"
    by (cases "assignLoop previous ds t1")
  from Cons.prems(1) one rest have out: "out = d' # ds'" and t2: "t2 = tid'" by simp_all
  show ?case
  proof (cases i)
    case 0
    with one out show ?thesis
      by (auto simp: assignOne_def assignedId_def freshCount_Cons split: option.splits)
  next
    case (Suc j)
    with Cons.prems have j: "j < length ds" by simp
    from one have t1: "t1 = tid + (if findBestMatch previous d = None then 1 else 0)"
      by (auto simp: assignOne_def split: option.splits)
    from Cons.IH [OF rest [unfolded t2] j] Suc out t1 show ?thesis
      by (auto simp: assignedId_def freshCount_Cons split: option.splits)
  qed
qed

lemma freshCount_take_mono:
  "i \<le> j \<Longrightarrow> freshCount previous (take i cur) \<le> freshCount previous (take j cur)"
proof -
  assume "i \<le> j"
  then have "take j cur = take i cur @ take (j - i) (drop i cur)"
    by (metis le_add_diff_inverse take_add)
  then show ?thesis by (simp add: freshCount_def)
qed

lemma freshCount_take_le: "freshCount previous (take i cur) \<le> freshCount previous cur"
  by (metis append_take_drop_id freshCount_def filter_append length_append le_add1)

lemma freshCount_take_Suc:
  "i < length cur \<Longrightarrow> freshCount previous (take (Suc i) cur) =
     freshCount previous (take i cur) + (if findBestMatch previous (cur ! i) = None then 1 else 0)"
  by (simp add: take_Suc_conv_app_nth freshCount_def)

lemma freshCount_take_pos:
  "i < length cur \<Longrightarrow> findBestMatch previous (cur ! i) = None
     \<Longrightarrow> 1 \<le> freshCount previous (take (Suc i) cur)"
  by (simp add: freshCount_take_Suc)

lemma fresh_index_inj:
  assumes "i < length cur" "j < length cur"
    and "findBestMatch previous (cur ! i) = None" "findBestMatch previous (cur ! j) = None"
    and eq: "freshCount previous (take (Suc i) cur) = freshCount previous (take (Suc j) cur)"
  shows "i = j"
proof -
  have less: "freshCount previous (take (Suc a) cur) < freshCount previous (take (Suc b) cur)"
    if "a < b" "b < length cur" "findBestMatch previous (cur ! b) = None" for a b
  proof -
    from that(1) have "freshCount previous (take (Suc a) cur) \<le> freshCount previous (take b cur)"
      by (intro freshCount_take_mono) simp
    also have "\<dots> < freshCount previous (take (Suc b) cur)"
      using that(2,3) by (simp add: freshCount_take_Suc)
    finally show ?thesis .
  qed
  show ?thesis
  proof (rule ccontr)
    assume "i \<noteq> j"
    then consider "i < j" | "j < i" by linarith
    then show False
    proof cases
      case 1
      from less [OF 1 assms(2) assms(4)] eq show False by simp
    next
      case 2
      from less [OF 2 assms(1) assms(3)] eq show False by simp
    qed
  qed
qed

lemma assignLoop_elem:
  assumes run: "assignLoop previous cur tid = (out, tid')" and e: "e \<in> set out"
  shows "(\<exists>b\<in>set previous. label b = label e \<and> trackId e = trackId b)
       \<or> (\<exists>i<length cur. e = out ! i \<and> label e = label (cur ! i)
             \<and> findBestMatch previous (cur ! i) = None
             \<and> trackId e = Some (tid + freshCount previous (take (Suc i) cur)))"
proof -
  from e obtain i where i: "i < length out" and ei: "e = out ! i"
    by (auto simp: in_set_conv_nth)
  from assignLoop_length [OF run] i have ic: "i < length cur" by simp
  note nth = assignLoop_nth [OF run ic]
  show ?thesis
  proof (cases "findBestMatch previous (cur ! i)")
    case None
    with nth ei ic show ?thesis by (auto simp: assignedId_def)
  next
    case (Some b)
    from findBestMatch_Some(1,2) [OF Some] nth ei Some show ?thesis
      by (auto simp: assignedId_def)
  qed
qed

lemma assignLoop_ids_bounded:
  assumes run: "assignLoop previous cur tid = (out, tid')"
    and sub: "set previous \<subseteq> H"
    and bnd: "\<forall>e\<in>H. \<exists>k. trackId e = Some k \<and> 1 \<le> k \<and> k \<le> tid"
  shows "\<forall>e\<in>H \<union> set out. \<exists>k. trackId e = Some k \<and> 1 \<le> k \<and> k \<le> tid'"
proof
  fix e assume "e \<in> H \<union> set out"
  note cnt = assignLoop_counter [OF run]
  then have le: "tid \<le> tid'" by simp
  from \<open>e \<in> H \<union> set out\<close> consider "e \<in> H" | "e \<in> set out" by blast
  then show "\<exists>k. trackId e = Some k \<and> 1 \<le> k \<and> k \<le> tid'"
  proof cases
    case 1
    with bnd le show ?thesis by fastforce
  next
    case 2
    from assignLoop_elem [OF run 2] show ?thesis
    proof
      assume "\<exists>b\<in>set previous. label b = label e \<and> trackId e = trackId b"
      then obtain b where "b \<in> H" "trackId e = trackId b" using sub by blast
      with bnd le show ?thesis by fastforce
    next
      assume "\<exists>i<length cur. e = out ! i \<and> label e = label (cur ! i)
             \<and> findBestMatch previous (cur ! i) = None
             \<and> trackId e = Some (tid + freshCount previous (take (Suc i) cur))"
      then obtain i where i: "i < length cur" "findBestMatch previous (cur ! i) = None"
        "trackId e = Some (tid + freshCount previous (take (Suc i) cur))" by blast
      from freshCount_take_pos [OF i(1,2)] freshCount_take_le [of previous "Suc i" cur] cnt i(3)
      show ?thesis by simp
    qed
  qed
qed

lemma assignLoop_id_label:
  assumes run: "assignLoop previous cur tid = (out, tid')"
    and sub: "set previous \<subseteq> H"
    and bnd: "\<forall>e\<in>H. \<exists>k. trackId e = Some k \<and> 1 \<le> k \<and> k \<le> tid"
    and lab: "\<forall>e\<in>H. \<forall>e'\<in>H. trackId e = trackId e' \<longrightarrow> label e = label e'"
  shows "\<forall>e\<in>H \<union> set out. \<forall>e'\<in>H \<union> set out. trackId e = trackId e' \<longrightarrow> label e = label e'"
proof -
  define old where "old e \<longleftrightarrow> (\<exists>b\<in>H. label b = label e \<and> trackId e = trackId b)" for e :: DetectionResult
  define new where "new e i \<longleftrightarrow> i < length cur \<and> label e = label (cur ! i)
             \<and> findBestMatch previous (cur ! i) = None
             \<and> trackId e = Some (tid + freshCount previous (take (Suc i) cur))" for e :: DetectionResult and i
  have cases: "old e \<or> (\<exists>i. new e i)" if "e \<in> H \<union> set out" for e
  proof (cases "e \<in> H")
    case True
    then show ?thesis unfolding old_def by blast
  next
    case False
    with that have "e \<in> set out" by simp
    from assignLoop_elem [OF run this] sub show ?thesis
      unfolding old_def new_def by blast
  qed
  have oo: "label e = label e'" if "old e" "old e'" "trackId e = trackId e'" for e e'
    using that lab unfolding old_def by metis
  have on: False if "old e" "new e' i" "trackId e = trackId e'" for e e' i
  proof -
    from that(1) bnd obtain k where "trackId e = Some k" "k \<le> tid"
      unfolding old_def by metis
    moreover from that(2) have "trackId e' = Some (tid + freshCount previous (take (Suc i) cur))"
      and "1 \<le> freshCount previous (take (Suc i) cur)"
      unfolding new_def using freshCount_take_pos by blast+
    ultimately show False using that(3) by simp
  qed
  have nn: "label e = label e'" if "new e i" "new e' j" "trackId e = trackId e'" for e e' i j
  proof -
    from that have "i = j"
      unfolding new_def by (intro fresh_index_inj [of i cur j previous]) simp_all
    with that(1,2) show ?thesis unfolding new_def by simp
  qed
  show ?thesis
  proof (intro ballI impI)
    fix e e' assume e: "e \<in> H \<union> set out" and e': "e' \<in> H \<union> set out"
      and eq: "trackId e = trackId e'"
    from cases [OF e] cases [OF e'] show "label e = label e'"
      using oo on nn eq by metis
  qed
qed

section \<open>Properties of detectObjects and the invariant of the tracker\<close>

lemma findBestMatch_None_hasCandidate:
  "findBestMatch previous d = None \<longleftrightarrow> \<not> hasCandidate previous d"
  by (auto simp: findBestMatch_None_iff hasCandidate_def)

lemma freshCount_hasCandidate:
  "freshCount previous ds = length (filter (\<lambda>e. \<not> hasCandidate previous e) ds)"
  by (simp add: freshCount_def findBestMatch_None_hasCandidate)

lemma loadModel_tracker:
  "loadModel this sb rd ld = (r, this') \<Longrightarrow>
     trackingId this' = trackingId this \<and> previousDetections this' = previousDetections this"
  by (auto simp: loadModel_def split: if_splits sum.splits)

lemma detectObjects_not_loaded:
  "model this = None \<Longrightarrow>
   detectObjects this img now = (Inl (Error ''Model not loaded. Call loadModel() first.''), this)"
  by (simp add: detectObjects_def)

lemma detectObjects_model_error:
  "model this = Some m \<Longrightarrow> m img = Inl e \<Longrightarrow> detectObjects this img now = (Inr [], this)"
  by (simp add: detectObjects_def)

lemma detectObjects_success:
  assumes "model this = Some m" "m img = Inr predictions"
  shows "detectObjects this img now =
      (Inr (fst (assignLoop (previousDetections this) (toDetections now predictions) (trackingId this))),
       this\<lparr>trackingId := snd (assignLoop (previousDetections this) (toDetections now predictions) (trackingId this)),
            previousDetections := fst (assignLoop (previousDetections this) (toDetections now predictions) (trackingId this))\<rparr>)"
  using assms by (simp add: detectObjects_def assignTrackingIds_def split: prod.splits)

lemma detectObjects_cases:
  assumes "detectObjects this img now = (r, this')"
  obtains (not_loaded) "model this = None" "r = Inl (Error ''Model not loaded. Call loadModel() first.'')" "this' = this"
  | (model_error) m e where "model this = Some m" "m img = Inl e" "r = Inr []" "this' = this"
  | (success) m predictions out tid' where "model this = Some m" "m img = Inr predictions"
      "assignLoop (previousDetections this) (toDetections now predictions) (trackingId this) = (out, tid')"
      "r = Inr out" "this' = this\<lparr>trackingId := tid', previousDetections := out\<rparr>"
proof (cases "model this")
  case None
  with assms have "r = Inl (Error ''Model not loaded. Call loadModel() first.'')" "this' = this"
    by (simp_all add: detectObjects_def)
  with None show ?thesis by (rule not_loaded)
next
  case (Some m)
  show ?thesis
  proof (cases "m img")
    case (Inl e)
    with Some assms have "r = Inr []" "this' = this"
      by (simp_all add: detectObjects_def)
    with Some Inl show ?thesis by (rule model_error)
  next
    case (Inr predictions)
    obtain out tid' where
      al: "assignLoop (previousDetections this) (toDetections now predictions) (trackingId this) = (out, tid')"
      by (cases "assignLoop (previousDetections this) (toDetections now predictions) (trackingId this)")
    from detectObjects_success [OF Some Inr, of now] al assms
    have "r = Inr out" "this' = this\<lparr>trackingId := tid', previousDetections := out\<rparr>" by simp_all
    with success [OF Some Inr al] show ?thesis .
  qed
qed

lemma trackerInv_frame:
  assumes inv: "trackerInv this frames"
    and run: "assignLoop (previousDetections this) cur (trackingId this) = (out, tid')"
  shows "trackerInv (this\<lparr>trackingId := tid', previousDetections := out\<rparr>) (out # frames)"
proof -
  from inv have sub: "set (previousDetections this) \<subseteq> set (concat frames)"
    and bnd: "\<forall>e\<in>set (concat frames). \<exists>k. trackId e = Some k \<and> 1 \<le> k \<and> k \<le> trackingId this"
    and lab: "\<forall>e\<in>set (concat frames). \<forall>e'\<in>set (concat frames).
         trackId e = trackId e' \<longrightarrow> label e = label e'"
    unfolding trackerInv_def idsBounded_def idsKeepLabel_def by blast+
  have un: "set (concat (out # frames)) = set (concat frames) \<union> set out" by auto
  have "idsBounded (set (concat (out # frames))) tid'"
    unfolding idsBounded_def un by (rule assignLoop_ids_bounded [OF run sub bnd])
  moreover have "idsKeepLabel (set (concat (out # frames)))"
    unfolding idsKeepLabel_def un by (rule assignLoop_id_label [OF run sub bnd lab])
  moreover have "set out \<subseteq> set (concat (out # frames))" by auto
  ultimately show ?thesis by (simp add: trackerInv_def)
qed

lemma history_trackerInv: "history this frames \<Longrightarrow> trackerInv this frames"
proof (induction rule: history.induct)
  case start
  show ?case by (simp add: trackerInv_def new_ObjectDetector_def idsBounded_def idsKeepLabel_def)
next
  case (load this frames setBackend ready ld r this')
  from loadModel_tracker [OF load.hyps(2)] load.IH show ?case
    by (simp add: trackerInv_def)
next
  case (frame this frames imageElement now out this')
  from frame.hyps(2) show ?case
  proof (cases rule: detectObjects_cases)
    case not_loaded
    then show ?thesis by simp
  next
    case (model_error m e)
    with frame.IH show ?thesis by (simp add: trackerInv_def)
  next
    case (success m predictions out' tid')
    with trackerInv_frame [OF frame.IH success(3)] show ?thesis by simp
  qed
next
  case (rejected this frames imageElement now e this')
  from rejected.hyps(2) rejected.IH show ?case
    by (cases rule: detectObjects_cases) simp_all
qed

section \<open>Distances\<close>

lemma sqrt_10000: "sqrt 10000 = 100"
  by (rule real_sqrt_unique) simp_all

lemma sqrt_less_100: "sqrt x < 100 \<longleftrightarrow> x < 10000"
  using real_sqrt_less_iff [of x 10000] by (simp add: sqrt_10000)

lemma distance_less_100:
  "distance d p < 100 \<longleftrightarrow>
     (centerX d - centerX p)\<^sup>2 + (centerY d - centerY p)\<^sup>2 < 10000"
proof -
  have "distance d p < 100 \<longleftrightarrow>
     real_of_int ((centerX d - centerX p)\<^sup>2 + (centerY d - centerY p)\<^sup>2) < real_of_int 10000"
    unfolding distance_def Math_pow_def sqrt_less_100 by simp
  also have "\<dots> \<longleftrightarrow> (centerX d - centerX p)\<^sup>2 + (centerY d - centerY p)\<^sup>2 < 10000"
    by (rule of_int_less_iff)
  finally show ?thesis .
qed

lemma history_ids:
  assumes "history this frames" "e \<in> set (concat frames)"
  shows "\<exists>k. trackId e = Some k \<and> 1 \<le> k \<and> k \<le> trackingId this"
  using history_trackerInv [OF assms(1)] assms(2)
  unfolding trackerInv_def idsBounded_def by blast

lemma history_previous:
  assumes "history this frames"
  shows "set (previousDetections this) \<subseteq> set (concat frames)"
  using history_trackerInv [OF assms] unfolding trackerInv_def by blast

section \<open>The example run\<close>

lemma loaded_detector_eq:
  "loaded_detector = \<lparr>model = Some stub_model, isLoading = False, trackingId = 0, previousDetections = []\<rparr>"
  by (simp add: loaded_detector_def loadModel_def new_ObjectDetector_def)

lemma first_frame_run:
  "detectObjects loaded_detector (Some [person_at 100 100]) 1000 =
     (Inr first_frame, loaded_detector\<lparr>trackingId := 1, previousDetections := first_frame\<rparr>)"
  by (simp add: loaded_detector_eq first_frame_def detectObjects_def assignTrackingIds_def toDetections_def
         assignOne_def findBestMatch_def stub_model_def)

lemma after_first_frame_eq:
  "after_first_frame = \<lparr>model = Some stub_model, isLoading = False, trackingId = 1, previousDetections = first_frame\<rparr>"
  unfolding after_first_frame_def first_frame_run by (simp add: loaded_detector_eq)

lemma history_loaded: "history loaded_detector []"
  unfolding loaded_detector_def
  by (rule history.load [OF history.start]) (rule surjective_pairing)

lemma history_first: "history after_first_frame [first_frame]"
  using history.frame [OF history_loaded first_frame_run]
  by (simp add: after_first_frame_def first_frame_run)

lemma first_frame_fields:
  "map label first_frame = [''person'']" "map centerX first_frame = [125]" "map centerY first_frame = [150]"
  "map trackId first_frame = [Some 1]"
  by (simp_all add: first_frame_def toDetection_def person_at_def Math_round_def)

lemma second_dets:
  "map label (toDetections 2000 second_frame) = [''person'', ''car'']"
  "map centerX (toDetections 2000 second_frame) = [135, 125]"
  "map centerY (toDetections 2000 second_frame) = [150, 150]"
  by (simp_all add: second_frame_def toDetections_def toDetection_def person_at_def car_at_def Math_round_def)

lemma person_has_candidate: "hasCandidate first_frame (toDetections 2000 second_frame ! 0)"
  by (simp add: hasCandidate_def first_frame_def second_frame_def toDetections_def toDetection_def
        person_at_def distance_less_100 Math_round_def)

lemma car_has_no_candidate: "\<not> hasCandidate first_frame (toDetections 2000 second_frame ! 1)"
  by (simp add: hasCandidate_def first_frame_def second_frame_def toDetections_def toDetection_def
        person_at_def car_at_def distance_less_100 Math_round_def)

section \<open>Properties of the violation check\<close>

lemma isInZone_centerInside: "isInZone d z = centerInside d z"
  by (simp add: isInZone_def centerInside_def detectionCenter_def Let_def)

lemma checkZone_alertDue:
  "checkZone now d z s = (if alertDue d z then raiseAlert now d z s else s)"
  by (simp add: checkZone_def alertDue_def isInZone_centerInside)

lemma raiseSeq_append: "raiseSeq (vs @ ws) s = raiseSeq ws (raiseSeq vs s)"
  by (simp add: raiseSeq_def)

lemma fold_checkZone:
  "fold (checkZone now d) zs s = raiseSeq (map (\<lambda>z. (now, d, z)) (filter (alertDue d) zs)) s"
  by (induction zs arbitrary: s) (simp_all add: raiseSeq_def checkZone_alertDue)

lemma violations_Cons:
  "violations now (d # ds) zs =
     map (\<lambda>z. (now, d, z)) (filter (alertDue d) zs) @ violations now ds zs"
proof -
  have "filter (\<lambda>(d, z). alertDue d z) (map (Pair d) zs) = map (Pair d) (filter (alertDue d) zs)"
    by (induction zs) simp_all
  then show ?thesis by (simp add: violations_def)
qed

lemma fold_fold_checkZone:
  "fold (\<lambda>d. fold (checkZone now d) zs) ds s = raiseSeq (violations now ds zs) s"
proof (induction ds arbitrary: s)
  case Nil
  show ?case by (simp add: raiseSeq_def violations_def)
next
  case (Cons d ds)
  have "fold (\<lambda>d. fold (checkZone now d) zs) (d # ds) s =
      raiseSeq (violations now ds zs) (fold (checkZone now d) zs s)"
    by (simp add: Cons.IH)
  also have "\<dots> = raiseSeq (violations now ds zs)
        (raiseSeq (map (\<lambda>z. (now, d, z)) (filter (alertDue d) zs)) s)"
    by (simp only: fold_checkZone)
  also have "\<dots> = raiseSeq (violations now (d # ds) zs) s"
    by (simp add: raiseSeq_append violations_Cons)
  finally show ?case .
qed

lemma checkViolations_eq:
  "checkViolations now ds s = raiseSeq (violations now ds (zones s)) s"
  by (simp add: checkViolations_def fold_fold_checkZone)

lemma violations_iff:
  "(now', d, z) \<in> set (violations now ds zs) \<longleftrightarrow>
     now' = now \<and> d \<in> set ds \<and> z \<in> set zs \<and> alertDue d z"
  by (auto simp: violations_def)



lemma bump_id [simp]: "zone_id (bump zid n z) = zone_id z"
  by (simp add: bump_def)

lemma bump_0 [simp]: "bump zid 0 = (\<lambda>z. z)"
  by (rule ext) (simp add: bump_def)







lemma raiseSeq_severity:
  "\<forall>a\<in>set (alerts (raiseSeq vs s)). a \<in> set (alerts s) \<or> severity a = high"
proof (induction vs arbitrary: s)
  case Nil
  show ?case by (simp add: raiseSeq_def)
next
  case (Cons v vs)
  obtain now d z where v: "v = (now, d, z)" by (cases v)
  have step: "a \<in> set (alerts s) \<or> severity a = high"
    if "a \<in> set (alerts (raiseAlert now d z s))" for a
    using that set_take_subset [of 9 "alerts s"]
    by (auto simp: raiseAlert_def newAlert_def)
  have "raiseSeq (v # vs) s = raiseSeq vs (raiseAlert now d z s)"
    by (simp add: raiseSeq_def v)
  with Cons.IH [of "raiseAlert now d z s"] step show ?case by auto
qed

lemma due_inside: "alertDue on_boundary (initialZones ! 0)"
  by (simp add: alertDue_def centerInside_def initialZones_def on_boundary_def toDetection_def Math_round_def)

lemma due_monitored: "\<not> alertDue on_boundary (initialZones ! 1)"
  by (simp add: alertDue_def centerInside_def initialZones_def on_boundary_def toDetection_def Math_round_def)


section \<open>Properties of the adapter step and of rounding\<close>

lemma decimal_example: "decimal 1000 @ ''-'' @ decimal 0 = ''1000-0''"
  by code_simp

lemma toDetections_length: "length (toDetections now predictions) = length predictions"
  by (simp add: toDetections_def)

lemma toDetections_nth:
  "i < length predictions \<Longrightarrow>
   toDetections now predictions ! i = toDetection now i (predictions ! i)"
  by (simp add: toDetections_def)

lemma detectObjects_frame:
  assumes "model this = Some m" "m img = Inr predictions"
  obtains out this' where
    "detectObjects this img now = (Inr out, this')"
    "length out = length predictions"
    "this' = this\<lparr>trackingId := trackingId this
                       + freshCount (previousDetections this) (toDetections now predictions),
                 previousDetections := out\<rparr>"
    "\<And>j. j < length predictions \<Longrightarrow>
       out ! j = (toDetection now j (predictions ! j))
          \<lparr>trackId := assignedId (previousDetections this) (trackingId this)
                        (toDetections now predictions) j\<rparr>"
proof -
  obtain out tid' where
    run: "assignLoop (previousDetections this) (toDetections now predictions) (trackingId this) = (out, tid')"
    by (cases "assignLoop (previousDetections this) (toDetections now predictions) (trackingId this)")
  have 1: "detectObjects this img now =
      (Inr out, this\<lparr>trackingId := trackingId this
                       + freshCount (previousDetections this) (toDetections now predictions),
                 previousDetections := out\<rparr>)"
    using detectObjects_success [OF assms, of now] run assignLoop_counter [OF run] by simp
  have 2: "length out = length predictions"
    using assignLoop_length [OF run] by (simp add: toDetections_length)
  have 3: "out ! j = (toDetection now j (predictions ! j))
          \<lparr>trackId := assignedId (previousDetections this) (trackingId this)
                        (toDetections now predictions) j\<rparr>" if "j < length predictions" for j
    using assignLoop_nth [OF run, of j] that by (simp add: toDetections_length toDetections_nth)
  from that [OF 1 2 refl 3] show thesis .
qed



lemma Math_round_of_int [simp]: "Math_round (of_int n) = n"
  unfolding Math_round_def by linarith



lemma area_of_rounded_sides_example:
  "area (toDetection ts j \<lparr>bbox = (0, 0, 52 / 5, 52 / 5), class_name = c, score = p\<rparr>) = 108
   \<and> det_width (toDetection ts j \<lparr>bbox = (0, 0, 52 / 5, 52 / 5), class_name = c, score = p\<rparr>)
     * det_height (toDetection ts j \<lparr>bbox = (0, 0, 52 / 5, 52 / 5), class_name = c, score = p\<rparr>)
     = 100"
  by (simp add: toDetection_def Math_round_def)

lemma history_keeps_label:
  assumes "history this frames" "e \<in> set (concat frames)" "e' \<in> set (concat frames)"
    "trackId e = trackId e'"
  shows "label e = label e'"
  using history_trackerInv [OF assms(1)] assms(2-4)
  unfolding trackerInv_def idsKeepLabel_def by blast

lemma two_near_best:
  "findBestMatch first_frame (toDetections 2000 two_near ! 0) = Some (first_frame ! 0)"
  "findBestMatch first_frame (toDetections 2000 two_near ! 1) = Some (first_frame ! 0)"
  by (simp_all add: two_near_def toDetections_def toDetection_def person_at_def Math_round_def
        findBestMatch_def matchStep_def first_frame_def distance_less_100)

lemma two_near_dist:
  "distance (toDetections 2000 two_near ! 0) (first_frame ! 0) < 100"
  "distance (toDetections 2000 two_near ! 1) (first_frame ! 0) < 100"
  "label (toDetections 2000 two_near ! 0) = label (first_frame ! 0)"
  "label (toDetections 2000 two_near ! 1) = label (first_frame ! 0)"
  by (simp_all add: two_near_def toDetections_def toDetection_def person_at_def Math_round_def
        first_frame_def distance_less_100)

lemma toDetection_no_trackId: "trackId (toDetection now j p) = None"
  by (simp add: toDetection_def split: prod.splits)

lemma erase_trackId:
  "(toDetection now j p)\<lparr>trackId := v\<rparr>\<lparr>trackId := None\<rparr> = toDetection now j p"
  by (simp add: toDetection_def split: prod.splits)

section \<open>The claims\<close>

text \<open>
  Claim C1. In a frame that \<open>detectObjects\<close> processes on a loaded model, the detection at
  position \<open>i\<close> is compared with the stored previous detections of its own label only. If
  one of them is less than 100 pixels away, the detection inherits the track id of one at
  minimum distance. Otherwise it receives the counter value reached by incrementing once
  for every unmatched detection up to and including position \<open>i\<close>: an id above the old
  counter, carried by no detection of any earlier frame and by no earlier detection of this
  frame. The counter ends increased by the number of unmatched detections.
\<close>

theorem tracker_assigns_nearest_or_fresh:
  assumes hist: "history this frames"
    and loaded: "model this = Some m"
    and ok: "m imageElement = Inr predictions"
    and i: "i < length predictions"
  shows "\<exists>out this'.
     detectObjects this imageElement now = (Inr out, this')
   \<and> length out = length predictions
   \<and> trackingId this' = trackingId this
        + length (filter (\<lambda>e. \<not> hasCandidate (previousDetections this) e)
                    (toDetections now predictions))
   \<and> (let d = toDetections now predictions ! i; previous = previousDetections this in
        if hasCandidate previous d
        then \<exists>b. nearestWithin previous d b \<and> trackId (out ! i) = trackId b
        else trackId (out ! i) =
               Some (trackingId this
                 + length (filter (\<lambda>e. \<not> hasCandidate previous e)
                             (take (Suc i) (toDetections now predictions))))
           \<and> (\<forall>k. trackId (out ! i) = Some k \<longrightarrow> trackingId this < k \<and> k \<le> trackingId this')
           \<and> (\<forall>e\<in>set (concat frames). trackId e \<noteq> trackId (out ! i))
           \<and> (\<forall>j<i. trackId (out ! j) \<noteq> trackId (out ! i)))"
proof -
  define previous where "previous = previousDetections this"
  define cur where "cur = toDetections now predictions"
  obtain out tid' where run: "assignLoop previous cur (trackingId this) = (out, tid')"
    by (cases "assignLoop previous cur (trackingId this)")
  define this' where "this' = this\<lparr>trackingId := tid', previousDetections := out\<rparr>"
  have det: "detectObjects this imageElement now = (Inr out, this')"
    using detectObjects_success [OF loaded ok, of now] run
    by (simp add: previous_def cur_def this'_def)
  have len_cur: "length cur = length predictions"
    by (simp add: cur_def toDetections_def)
  have len: "length out = length predictions"
    using assignLoop_length [OF run] len_cur by simp
  have cnt: "tid' = trackingId this + freshCount previous cur"
    by (rule assignLoop_counter [OF run])
  have tid': "trackingId this' = tid'" by (simp add: this'_def)
  have ic: "i < length cur" using i len_cur by simp
  have nth: "out ! j = (cur ! j)\<lparr>trackId := assignedId previous (trackingId this) cur j\<rparr>"
    if "j < length cur" for j
    by (rule assignLoop_nth [OF run that])
  have branch: "if hasCandidate previous (cur ! i)
        then \<exists>b. nearestWithin previous (cur ! i) b \<and> trackId (out ! i) = trackId b
        else trackId (out ! i) = Some (trackingId this + freshCount previous (take (Suc i) cur))
           \<and> (\<forall>k. trackId (out ! i) = Some k \<longrightarrow> trackingId this < k \<and> k \<le> trackingId this')
           \<and> (\<forall>e\<in>set (concat frames). trackId e \<noteq> trackId (out ! i))
           \<and> (\<forall>j<i. trackId (out ! j) \<noteq> trackId (out ! i))"
  proof (cases "findBestMatch previous (cur ! i)")
    case (Some b)
    then have "hasCandidate previous (cur ! i)"
      using findBestMatch_None_hasCandidate [of previous "cur ! i"] by simp
    moreover from findBestMatch_Some [OF Some] have "nearestWithin previous (cur ! i) b"
      by (simp add: nearestWithin_def)
    moreover from nth [OF ic] Some have "trackId (out ! i) = trackId b"
      by (simp add: assignedId_def)
    ultimately show ?thesis by auto
  next
    case None
    then have nc: "\<not> hasCandidate previous (cur ! i)"
      by (simp add: findBestMatch_None_hasCandidate)
    let ?k = "trackingId this + freshCount previous (take (Suc i) cur)"
    from nth [OF ic] None have id: "trackId (out ! i) = Some ?k"
      by (simp add: assignedId_def)
    have pos: "1 \<le> freshCount previous (take (Suc i) cur)"
      by (rule freshCount_take_pos [OF ic None])
    have le: "freshCount previous (take (Suc i) cur) \<le> freshCount previous cur"
      by (rule freshCount_take_le)
    have old: "trackId e \<noteq> Some ?k" if "e \<in> set (concat frames)" for e
      using history_ids [OF hist that] pos by auto
    have earlier: "trackId (out ! j) \<noteq> Some ?k" if "j < i" for j
    proof (cases "findBestMatch previous (cur ! j)")
      case (Some b)
      from that ic have jc: "j < length cur" by simp
      from findBestMatch_Some(1) [OF Some] history_previous [OF hist]
      have "b \<in> set (concat frames)" by (auto simp: previous_def)
      from old [OF this] nth [OF jc] Some show ?thesis by (simp add: assignedId_def)
    next
      case None
      from that ic have jc: "j < length cur" by simp
      from that have "freshCount previous (take (Suc j) cur) \<le> freshCount previous (take i cur)"
        by (intro freshCount_take_mono) simp
      also have "\<dots> < freshCount previous (take (Suc i) cur)"
        using ic \<open>findBestMatch previous (cur ! i) = None\<close> by (simp add: freshCount_take_Suc)
      finally show ?thesis using nth [OF jc] None by (simp add: assignedId_def)
    qed
    from nc id pos le cnt tid' old earlier show ?thesis by auto
  qed
  from cnt tid' have "trackingId this' = trackingId this + freshCount previous cur" by simp
  with det len branch
  have "detectObjects this imageElement now = (Inr out, this')
   \<and> length out = length predictions
   \<and> trackingId this' = trackingId this + freshCount previous cur
   \<and> (if hasCandidate previous (cur ! i)
        then \<exists>b. nearestWithin previous (cur ! i) b \<and> trackId (out ! i) = trackId b
        else trackId (out ! i) = Some (trackingId this + freshCount previous (take (Suc i) cur))
           \<and> (\<forall>k. trackId (out ! i) = Some k \<longrightarrow> trackingId this < k \<and> k \<le> trackingId this')
           \<and> (\<forall>e\<in>set (concat frames). trackId e \<noteq> trackId (out ! i))
           \<and> (\<forall>j<i. trackId (out ! j) \<noteq> trackId (out ! i)))"
    by (intro conjI)
  then show ?thesis
    unfolding Let_def previous_def [symmetric] cur_def [symmetric] freshCount_hasCandidate [symmetric]
    by (intro exI)
qed

theorem tracker_assigns_nearest_or_fresh_witness:
  "history after_first_frame [first_frame]
   \<and> model after_first_frame = Some stub_model
   \<and> stub_model (Some second_frame) = Inr second_frame
   \<and> 0 < length second_frame \<and> 1 < length second_frame
   \<and> map trackId (previousDetections after_first_frame) = [Some 1]
   \<and> trackingId after_first_frame = 1
   \<and> (\<exists>out this'. detectObjects after_first_frame (Some second_frame) 2000 = (Inr out, this')
         \<and> length out = 2 \<and> trackingId this' = 2
         \<and> trackId (out ! 0) = Some 1 \<and> trackId (out ! 1) = Some 2)"
proof -
  have m: "model after_first_frame = Some stub_model"
    by (simp add: after_first_frame_eq)
  have ok: "stub_model (Some second_frame) = Inr second_frame"
    by (simp add: stub_model_def)
  have i0: "0 < length second_frame" and i1: "1 < length second_frame"
    by (simp_all add: second_frame_def)
  have prev: "previousDetections after_first_frame = first_frame"
    by (simp add: after_first_frame_eq)
  have tid: "trackingId after_first_frame = 1"
    by (simp add: after_first_frame_eq)
  have td: "toDetections 2000 second_frame = [toDetections 2000 second_frame ! 0, toDetections 2000 second_frame ! 1]"
    by (simp add: toDetections_def second_frame_def)
  have cnt: "length (filter (\<lambda>e. \<not> hasCandidate first_frame e) (toDetections 2000 second_frame)) = 1"
    using person_has_candidate car_has_no_candidate by (subst td) simp
  have tk: "take (Suc 1) (toDetections 2000 second_frame) = toDetections 2000 second_frame"
    by (simp add: toDetections_def second_frame_def)
  from tracker_assigns_nearest_or_fresh [OF history_first m ok i1, of 2000]
  obtain out this' where run: "detectObjects after_first_frame (Some second_frame) 2000 = (Inr out, this')"
    and len: "length out = length second_frame"
    and c: "trackingId this' = trackingId after_first_frame + 1"
    and id1: "trackId (out ! 1) = Some (trackingId after_first_frame + 1)"
    unfolding Let_def prev tk cnt using car_has_no_candidate by auto
  from tracker_assigns_nearest_or_fresh [OF history_first m ok i0, of 2000] run
  obtain b where "nearestWithin first_frame (toDetections 2000 second_frame ! 0) b"
    and "trackId (out ! 0) = trackId b"
    unfolding Let_def prev using person_has_candidate by auto
  then have id0: "trackId (out ! 0) = Some 1"
    by (auto simp: nearestWithin_def first_frame_def)
  from run len c id0 id1 show ?thesis
    using history_first m ok i0 i1 first_frame_fields(4)
    by (simp add: prev tid second_frame_def)
qed



text \<open>
  Claim C3. The check raises an alert for a detection and a zone exactly when the zone is
  active, its type is \<open>restricted\<close> and the center of the detection lies in the rectangle of
  the zone, boundary included; one run of the effect performs the updates of exactly these
  pairs of the cross product, in loop order. A raised alert is put at the head of the
  history and has severity \<open>high\<close>, so every alert that a run adds has; an inactive zone
  leaves the state as it is.
\<close>

theorem roi_alert_iff_active_restricted_inside:
  "checkZone now d z s =
      (if isActive z \<and> zone_type z = restricted \<and> centerInside d z
       then raiseAlert now d z s else s)
   \<and> checkViolations now ds s =
       raiseSeq (map (Pair now)
          (filter (\<lambda>(d, z). isActive z \<and> zone_type z = restricted \<and> centerInside d z)
             (List.product ds (zones s)))) s
   \<and> alerts (raiseAlert now d z s) = newAlert now d z # take 9 (alerts s)
   \<and> severity (newAlert now d z) = high
   \<and> (\<forall>a\<in>set (alerts (checkViolations now ds s)). a \<in> set (alerts s) \<or> severity a = high)
   \<and> (\<not> isActive z \<longrightarrow> checkZone now d z s = s)"
proof (intro conjI)
  show "checkZone now d z s =
      (if isActive z \<and> zone_type z = restricted \<and> centerInside d z
       then raiseAlert now d z s else s)"
    using checkZone_alertDue [of now d z s] by (simp add: alertDue_def)
  show "checkViolations now ds s =
       raiseSeq (map (Pair now)
          (filter (\<lambda>(d, z). isActive z \<and> zone_type z = restricted \<and> centerInside d z)
             (List.product ds (zones s)))) s"
    using checkViolations_eq [of now ds s] by (simp add: violations_def alertDue_def)
  show "alerts (raiseAlert now d z s) = newAlert now d z # take 9 (alerts s)"
    by (simp add: raiseAlert_def)
  show "severity (newAlert now d z) = high"
    by (simp add: newAlert_def)
  show "\<forall>a\<in>set (alerts (checkViolations now ds s)). a \<in> set (alerts s) \<or> severity a = high"
    unfolding checkViolations_eq by (rule raiseSeq_severity)
  show "\<not> isActive z \<longrightarrow> checkZone now d z s = s"
    by (simp add: checkZone_def)
qed

theorem roi_alert_iff_active_restricted_inside_witness:
  "alerts (checkViolations 7 [on_boundary] initialROI)
      = [newAlert 7 on_boundary (initialZones ! 0)]
   \<and> map severity (alerts (checkViolations 7 [on_boundary] initialROI)) = [high]
   \<and> map alertCount (zones (checkViolations 7 [on_boundary] initialROI)) = [1, 0]
   \<and> isActive (initialZones ! 0) \<and> zone_type (initialZones ! 0) = restricted
   \<and> centerInside on_boundary (initialZones ! 0)
   \<and> fst (detectionCenter on_boundary) = 300
   \<and> coord_x (coordinates (initialZones ! 0)) + coord_width (coordinates (initialZones ! 0)) = 300
   \<and> \<not> isActive ((initialZones ! 0)\<lparr>isActive := False\<rparr>)
   \<and> checkZone 7 on_boundary ((initialZones ! 0)\<lparr>isActive := False\<rparr>) initialROI
          = initialROI"
proof -
  let ?d = "on_boundary"
  let ?inactive = "(initialZones ! 0)\<lparr>isActive := False\<rparr>"
  note inst = roi_alert_iff_active_restricted_inside [of 7 "?d" "?inactive" initialROI "[?d]"]
  have zs: "zones initialROI = [initialZones ! 0, initialZones ! 1]"
    by (simp add: initialROI_def initialZones_def)
  have sel: "filter (\<lambda>(d, z). isActive z \<and> zone_type z = restricted \<and> centerInside d z)
             (List.product [?d] (zones initialROI)) = [(?d, initialZones ! 0)]"
    unfolding zs using due_inside due_monitored by (simp add: alertDue_def)
  from inst have run: "checkViolations 7 [?d] initialROI =
       raiseAlert 7 ?d (initialZones ! 0) initialROI"
    unfolding sel by (simp add: raiseSeq_def)
  have a: "alerts (raiseAlert 7 ?d (initialZones ! 0) initialROI) = [newAlert 7 ?d (initialZones ! 0)]"
    by (simp add: raiseAlert_def initialROI_def)
  have c: "map alertCount (zones (raiseAlert 7 ?d (initialZones ! 0) initialROI)) = [1, 0]"
    by (simp add: raiseAlert_def initialROI_def initialZones_def)
  have sev: "severity (newAlert 7 ?d (initialZones ! 0)) = high"
    by (simp add: newAlert_def)
  have geo: "fst (detectionCenter ?d) = 300"
    "coord_x (coordinates (initialZones ! 0)) + coord_width (coordinates (initialZones ! 0)) = 300"
    by (simp_all add: detectionCenter_def on_boundary_def toDetection_def Math_round_def initialZones_def)
  have off: "\<not> isActive ?inactive" by simp
  from inst off have skip: "checkZone 7 ?d ?inactive initialROI = initialROI" by blast
  from due_inside have due: "isActive (initialZones ! 0)" "zone_type (initialZones ! 0) = restricted"
    "centerInside ?d (initialZones ! 0)"
    by (simp_all add: alertDue_def)
  from a c sev geo off skip due show ?thesis unfolding run by simp
qed



text \<open>
  Claim C5. \<open>detectObjects\<close> rejects exactly when no model is loaded. When the model is
  loaded and its \<open>detect\<close> call throws, the result is the empty list. \<open>loadModel\<close>, called
  on a detector that is neither loaded nor loading, passes the error of a failing
  \<open>cocoSsd.load\<close> (and of a failing backend call before it) on to its caller and leaves the
  model unset.
\<close>

theorem detect_throws_iff_not_loaded:
  "((\<exists>e. fst (detectObjects this imageElement now) = Inl e) \<longleftrightarrow> model this = None)
   \<and> (model this = None \<longrightarrow>
        detectObjects this imageElement now =
          (Inl (Error ''Model not loaded. Call loadModel() first.''), this))
   \<and> (\<forall>m e. model this = Some m \<and> m imageElement = Inl e \<longrightarrow>
        fst (detectObjects this imageElement now) = Inr [])
   \<and> (model this = None \<and> \<not> isLoading this \<longrightarrow>
        fst (loadModel this (Inr ()) (Inr ()) (Inl err)) = Inl err
      \<and> fst (loadModel this (Inr ()) (Inl err) ld) = Inl err
      \<and> fst (loadModel this (Inl err) rd ld) = Inl err
      \<and> model (snd (loadModel this (Inr ()) (Inr ()) (Inl err))) = None)"
proof (intro conjI)
  show "(\<exists>e. fst (detectObjects this imageElement now) = Inl e) \<longleftrightarrow> model this = None"
  proof (cases "model this")
    case None
    then show ?thesis by (simp add: detectObjects_not_loaded)
  next
    case (Some m)
    then show ?thesis
      by (cases "m imageElement")
         (simp_all add: detectObjects_model_error detectObjects_success)
  qed
  show "model this = None \<longrightarrow>
        detectObjects this imageElement now =
          (Inl (Error ''Model not loaded. Call loadModel() first.''), this)"
    by (simp add: detectObjects_not_loaded)
  show "\<forall>m e. model this = Some m \<and> m imageElement = Inl e \<longrightarrow>
        fst (detectObjects this imageElement now) = Inr []"
    by (simp add: detectObjects_model_error)
  show "model this = None \<and> \<not> isLoading this \<longrightarrow>
        fst (loadModel this (Inr ()) (Inr ()) (Inl err)) = Inl err
      \<and> fst (loadModel this (Inr ()) (Inl err) ld) = Inl err
      \<and> fst (loadModel this (Inl err) rd ld) = Inl err
      \<and> model (snd (loadModel this (Inr ()) (Inr ()) (Inl err))) = None"
    by (simp add: loadModel_def)
qed

theorem detect_throws_iff_not_loaded_witness:
  "model (new_ObjectDetector :: DetectedObject list option ObjectDetector) = None
   \<and> \<not> isLoading (new_ObjectDetector :: DetectedObject list option ObjectDetector)
   \<and> fst (detectObjects (new_ObjectDetector :: DetectedObject list option ObjectDetector)
            (Some [spec_example]) 1000)
        = Inl (Error ''Model not loaded. Call loadModel() first.'')
   \<and> fst (loadModel (new_ObjectDetector :: DetectedObject list option ObjectDetector)
            (Inr ()) (Inr ()) (Inl (Error ''fetch failed''))) = Inl (Error ''fetch failed'')
   \<and> model loaded_detector = Some stub_model
   \<and> stub_model None = Inl (Error ''inference failed'')
   \<and> fst (detectObjects loaded_detector None 1000) = Inr []"
proof -
  let ?new = "new_ObjectDetector :: DetectedObject list option ObjectDetector"
  have n: "model ?new = None" "\<not> isLoading ?new" by (simp_all add: new_ObjectDetector_def)
  have l: "model loaded_detector = Some stub_model" by (simp add: loaded_detector_eq)
  have f: "stub_model None = Inl (Error ''inference failed'')" by (simp add: stub_model_def)
  from detect_throws_iff_not_loaded [of ?new "Some [spec_example]" 1000 "Error ''fetch failed''"] n
  have a: "fst (detectObjects ?new (Some [spec_example]) 1000)
        = Inl (Error ''Model not loaded. Call loadModel() first.'')"
    "fst (loadModel ?new (Inr ()) (Inr ()) (Inl (Error ''fetch failed''))) = Inl (Error ''fetch failed'')"
    by simp_all
  from detect_throws_iff_not_loaded [of loaded_detector None 1000] l f
  have b: "fst (detectObjects loaded_detector None 1000) = Inr []" by blast
  from n l f a b show ?thesis by simp
qed

text \<open>
  Claim C6. In a frame processed from a reachable state, the best match of a detection has
  the label of the detection, and the track id that the detection receives is carried by
  no stored previous detection of another label. When every stored previous detection has
  another label, wherever its center is, the detection receives a new id above the old
  counter that no earlier frame has used.
\<close>

theorem no_cross_label_inheritance:
  assumes hist: "history this frames"
    and loaded: "model this = Some m"
    and ok: "m imageElement = Inr predictions"
    and i: "i < length predictions"
  shows "\<exists>out this'.
     detectObjects this imageElement now = (Inr out, this')
   \<and> label (out ! i) = class_name (predictions ! i)
   \<and> (\<forall>b. findBestMatch (previousDetections this) (toDetections now predictions ! i) = Some b
          \<longrightarrow> label b = label (out ! i))
   \<and> (\<forall>p\<in>set (previousDetections this).
          label p \<noteq> label (out ! i) \<longrightarrow> trackId (out ! i) \<noteq> trackId p)
   \<and> ((\<forall>p\<in>set (previousDetections this). label p \<noteq> label (out ! i)) \<longrightarrow>
         (\<exists>k. trackId (out ! i) = Some k \<and> trackingId this < k
            \<and> (\<forall>e\<in>set (concat frames). trackId e \<noteq> Some k)))"
proof -
  let ?prev = "previousDetections this"
  let ?cur = "toDetections now predictions"
  from detectObjects_frame [OF loaded ok, of now] obtain out this' where
    run: "detectObjects this imageElement now = (Inr out, this')"
    and len: "length out = length predictions"
    and nth: "\<And>j. j < length predictions \<Longrightarrow>
       out ! j = (toDetection now j (predictions ! j))
          \<lparr>trackId := assignedId ?prev (trackingId this) ?cur j\<rparr>"
    by blast
  note r = nth [OF i]
  have ci: "?cur ! i = toDetection now i (predictions ! i)"
    by (rule toDetections_nth [OF i])
  have lab: "label (out ! i) = label (?cur ! i)" unfolding r ci by simp
  have cls: "label (out ! i) = class_name (predictions ! i)"
    unfolding r by (simp add: toDetection_def split: prod.splits)
  have best: "label b = label (out ! i)" if "findBestMatch ?prev (?cur ! i) = Some b" for b
    using findBestMatch_Some(2) [OF that] lab by simp
  have hist': "history this' (out # frames)"
    by (rule history.frame [OF hist run])
  have mem: "out ! i \<in> set (concat (out # frames))"
    using i len by simp
  have cross: "trackId (out ! i) \<noteq> trackId p" if "p \<in> set ?prev" "label p \<noteq> label (out ! i)" for p
  proof
    assume eq: "trackId (out ! i) = trackId p"
    from that(1) history_previous [OF hist] have "p \<in> set (concat (out # frames))" by auto
    from history_keeps_label [OF hist' mem this eq] that(2) show False by simp
  qed
  have fresh: "\<exists>k. trackId (out ! i) = Some k \<and> trackingId this < k
            \<and> (\<forall>e\<in>set (concat frames). trackId e \<noteq> Some k)"
    if "\<forall>p\<in>set ?prev. label p \<noteq> label (out ! i)"
  proof -
    from that lab have none: "findBestMatch ?prev (?cur ! i) = None"
      by (simp add: findBestMatch_None_iff)
    have ic: "i < length ?cur" using i by (simp add: toDetections_length)
    let ?k = "trackingId this + freshCount ?prev (take (Suc i) ?cur)"
    have id: "trackId (out ! i) = Some ?k"
      unfolding r by (simp add: assignedId_def none)
    have pos: "1 \<le> freshCount ?prev (take (Suc i) ?cur)"
      by (rule freshCount_take_pos [OF ic none])
    have "trackId e \<noteq> Some ?k" if "e \<in> set (concat frames)" for e
      using history_ids [OF hist that] pos by auto
    with id pos show ?thesis by auto
  qed
  from run cls best cross fresh show ?thesis unfolding ci [symmetric] by blast
qed

theorem no_cross_label_inheritance_witness:
  "history after_first_frame [first_frame]
   \<and> model after_first_frame = Some stub_model
   \<and> stub_model (Some car_frame) = Inr car_frame
   \<and> 0 < length car_frame
   \<and> map label (previousDetections after_first_frame) = [''person'']
   \<and> map centerX (previousDetections after_first_frame) = [125]
   \<and> map centerY (previousDetections after_first_frame) = [150]
   \<and> map trackId (previousDetections after_first_frame) = [Some 1]
   \<and> (\<exists>out this'. detectObjects after_first_frame (Some car_frame) 2000 = (Inr out, this')
        \<and> label (out ! 0) = ''car'' \<and> centerX (out ! 0) = 125 \<and> centerY (out ! 0) = 150
        \<and> trackId (out ! 0) = Some 2)"
proof -
  have m: "model after_first_frame = Some stub_model" by (simp add: after_first_frame_eq)
  have ok: "stub_model (Some car_frame) = Inr car_frame" by (simp add: stub_model_def)
  have i: "0 < length car_frame" by (simp add: car_frame_def)
  have prev: "previousDetections after_first_frame = first_frame" by (simp add: after_first_frame_eq)
  from no_cross_label_inheritance [OF history_first m ok i, of 2000]
  obtain out this' where run: "detectObjects after_first_frame (Some car_frame) 2000 = (Inr out, this')"
    and cls: "label (out ! 0) = class_name (car_frame ! 0)"
    and cross: "\<forall>p\<in>set (previousDetections after_first_frame).
          label p \<noteq> label (out ! 0) \<longrightarrow> trackId (out ! 0) \<noteq> trackId p"
    and fresh: "(\<forall>p\<in>set (previousDetections after_first_frame). label p \<noteq> label (out ! 0)) \<longrightarrow>
         (\<exists>k. trackId (out ! 0) = Some k \<and> trackingId after_first_frame < k
            \<and> (\<forall>e\<in>set (concat [first_frame]). trackId e \<noteq> Some k))"
    by blast
  have car: "label (out ! 0) = ''car''" using cls by (simp add: car_frame_def car_at_def)
  from cross car have ne: "trackId (out ! 0) \<noteq> Some 1"
    unfolding prev by (simp add: first_frame_def toDetection_def person_at_def)
  from run have out: "out = fst (assignLoop first_frame (toDetections 2000 car_frame) 1)"
    using detectObjects_success [OF m ok, of 2000] by (simp add: after_first_frame_eq)
  have geo: "centerX (out ! 0) = 125" "centerY (out ! 0) = 150" "trackId (out ! 0) = Some 2"
    unfolding out
    by (simp_all add: car_frame_def toDetections_def toDetection_def car_at_def Math_round_def
          assignOne_def findBestMatch_def matchStep_def first_frame_def person_at_def)
  from history_first m ok i run car geo first_frame_fields show ?thesis
    unfolding prev by simp
qed

text \<open>
  Claim C7. Matching is not exclusive. In the state after the first example frame the only
  previous detection is a person with center (125, 150) and track id 1. A frame with two
  persons, with centers (135, 150) and (115, 170), has both within 100 pixels of it and
  both with it as best match: both come back with track id 1, and the counter stays 1.
\<close>

theorem matching_is_not_exclusive:
  "history after_first_frame [first_frame]
   \<and> model after_first_frame = Some stub_model
   \<and> stub_model (Some two_near) = Inr two_near
   \<and> previousDetections after_first_frame = [first_frame ! 0]
   \<and> trackingId after_first_frame = 1
   \<and> label (first_frame ! 0) = ''person''
   \<and> centerX (first_frame ! 0) = 125 \<and> centerY (first_frame ! 0) = 150
   \<and> trackId (first_frame ! 0) = Some 1
   \<and> map label (toDetections 2000 two_near) = [''person'', ''person'']
   \<and> map centerX (toDetections 2000 two_near) = [135, 115]
   \<and> map centerY (toDetections 2000 two_near) = [150, 170]
   \<and> distance (toDetections 2000 two_near ! 0) (first_frame ! 0) < 100
   \<and> distance (toDetections 2000 two_near ! 1) (first_frame ! 0) < 100
   \<and> findBestMatch [first_frame ! 0] (toDetections 2000 two_near ! 0) = Some (first_frame ! 0)
   \<and> findBestMatch [first_frame ! 0] (toDetections 2000 two_near ! 1) = Some (first_frame ! 0)
   \<and> (\<exists>out this'.
         detectObjects after_first_frame (Some two_near) 2000 = (Inr out, this')
       \<and> map trackId out = [Some 1, Some 1]
       \<and> trackingId this' = 1)"
proof -
  let ?p = "first_frame ! 0"
  let ?d0 = "toDetections 2000 two_near ! 0"
  let ?d1 = "toDetections 2000 two_near ! 1"
  let ?out = "[?d0\<lparr>trackId := trackId ?p\<rparr>, ?d1\<lparr>trackId := trackId ?p\<rparr>]"
  have ff: "first_frame = [?p]" by (simp add: first_frame_def)
  have prev: "previousDetections after_first_frame = [?p]"
    using ff by (simp add: after_first_frame_eq)
  have p: "label ?p = ''person''" "centerX ?p = 125" "centerY ?p = 150" "trackId ?p = Some 1"
    by (simp_all add: first_frame_def toDetection_def person_at_def Math_round_def)
  have m: "model after_first_frame = Some stub_model" by (simp add: after_first_frame_eq)
  have ok: "stub_model (Some two_near) = Inr two_near" by (simp add: stub_model_def)
  have cur: "toDetections 2000 two_near = [?d0, ?d1]"
    by (simp add: toDetections_def two_near_def)
  have geo: "map label (toDetections 2000 two_near) = [''person'', ''person'']"
    "map centerX (toDetections 2000 two_near) = [135, 115]"
    "map centerY (toDetections 2000 two_near) = [150, 170]"
    by (simp_all add: toDetections_def two_near_def toDetection_def person_at_def Math_round_def)
  have loop: "assignLoop first_frame [?d0, ?d1] 1 = (?out, 1)"
    using two_near_best by (simp add: assignOne_def)
  have pl: "previousDetections after_first_frame = first_frame" "trackingId after_first_frame = 1"
    by (simp_all add: after_first_frame_eq)
  have loop': "assignLoop (previousDetections after_first_frame) (toDetections 2000 two_near)
      (trackingId after_first_frame) = (?out, 1)"
    unfolding pl by (subst cur) (rule loop)
  have run: "detectObjects after_first_frame (Some two_near) 2000 =
      (Inr ?out, after_first_frame\<lparr>trackingId := 1, previousDetections := ?out\<rparr>)"
    unfolding detectObjects_success [OF m ok, of 2000] loop' by (simp only: fst_conv snd_conv)
  have b0: "findBestMatch [?p] ?d0 = Some ?p" and b1: "findBestMatch [?p] ?d1 = Some ?p"
    using two_near_best ff by simp_all
  have ids: "map trackId ?out = [Some 1, Some 1]" by (simp add: p)
  have tid: "trackingId (after_first_frame\<lparr>trackingId := 1, previousDetections := ?out\<rparr>) = 1"
    by simp
  have ex: "\<exists>out this'.
         detectObjects after_first_frame (Some two_near) 2000 = (Inr out, this')
       \<and> map trackId out = [Some 1, Some 1]
       \<and> trackingId this' = 1"
    by (intro exI conjI) (rule run, rule ids, rule tid)
  from history_first m ok prev pl(2) p geo two_near_dist(1,2) b0 b1 ex
  show ?thesis by (intro conjI)
qed

text \<open>
  Claim C8. After a call of \<open>detectObjects\<close> in which the model call succeeds, the stored
  previous detections are exactly the list returned, one record per prediction; the call
  changes nothing else but the counter, and a later call depends on the tracker only
  through the counter and that list.
\<close>

theorem previous_frame_replaced:
  assumes "model this = Some m" and "m imageElement = Inr predictions"
    and "detectObjects this imageElement now = (r, this')"
  shows "r = Inr (previousDetections this')
     \<and> length (previousDetections this') = length predictions
     \<and> this' = this\<lparr>trackingId := trackingId this', previousDetections := previousDetections this'\<rparr>
     \<and> (\<forall>other. model other = model this' \<and> trackingId other = trackingId this'
            \<and> previousDetections other = previousDetections this'
          \<longrightarrow> fst (detectObjects other nextElement later) = fst (detectObjects this' nextElement later))"
proof -
  from detectObjects_frame [OF assms(1,2), of now] obtain out n where
    run: "detectObjects this imageElement now =
            (Inr out, this\<lparr>trackingId := n, previousDetections := out\<rparr>)"
    and len: "length out = length predictions"
    by blast
  from run assms(3) have r: "r = Inr out"
    and t: "this' = this\<lparr>trackingId := n, previousDetections := out\<rparr>"
    by simp_all
  have 1: "r = Inr (previousDetections this')" unfolding r t by simp
  have 2: "length (previousDetections this') = length predictions" unfolding t using len by simp
  have 3: "this' = this\<lparr>trackingId := trackingId this', previousDetections := previousDetections this'\<rparr>"
    unfolding t by simp
  have 4: "fst (detectObjects other nextElement later) = fst (detectObjects this' nextElement later)"
    if "model other = model this'" "trackingId other = trackingId this'"
      "previousDetections other = previousDetections this'" for other
    using that by (simp add: detectObjects_def assignTrackingIds_def split: option.splits sum.splits prod.splits)
  from 1 2 3 4 show ?thesis by blast
qed

theorem previous_frame_replaced_witness:
  "model loaded_detector = Some stub_model
   \<and> stub_model (Some [person_at 100 100]) = Inr [person_at 100 100]
   \<and> detectObjects loaded_detector (Some [person_at 100 100]) 1000 = (Inr first_frame, after_first_frame)
   \<and> previousDetections after_first_frame = first_frame
   \<and> length first_frame = 1"
proof -
  have m: "model loaded_detector = Some stub_model" by (simp add: loaded_detector_eq)
  have ok: "stub_model (Some [person_at 100 100]) = Inr [person_at 100 100]"
    by (simp add: stub_model_def)
  have run: "detectObjects loaded_detector (Some [person_at 100 100]) 1000 = (Inr first_frame, after_first_frame)"
    unfolding first_frame_run after_first_frame_eq by (simp add: loaded_detector_eq)
  from previous_frame_replaced [OF m ok run, of None 0]
  have "Inr first_frame = (Inr (previousDetections after_first_frame) :: error + DetectionResult list)"
    and "length (previousDetections after_first_frame) = length [person_at 100 100]"
    by blast+
  with m ok run show ?thesis by simp
qed

text \<open>
  Claim C9. The conversion of the raw predictions is the function \<open>toDetections\<close> of the
  clock value and the predictions alone: it neither reads nor writes the tracker. The
  tracker state changes only through \<open>assignTrackingIds\<close>, applied to its result, and the
  assignment of \<open>previousDetections\<close> that follows; the records returned are those of
  \<open>toDetections\<close> with a track id written, and \<open>toDetections\<close> itself writes none.
\<close>

theorem adapter_step_is_pure:
  assumes loaded: "model this = Some m"
    and ok: "m imageElement = Inr predictions"
  shows "\<exists>out this'.
     detectObjects this imageElement now = (Inr out, this')
   \<and> (out, this'\<lparr>previousDetections := previousDetections this\<rparr>)
        = assignTrackingIds this (toDetections now predictions)
   \<and> previousDetections this' = out
   \<and> map (\<lambda>d. d\<lparr>trackId := None\<rparr>) out = toDetections now predictions
   \<and> (\<forall>d\<in>set (toDetections now predictions). trackId d = None)
   \<and> (\<forall>j<length predictions.
         toDetections now predictions ! j = toDetection now j (predictions ! j))"
proof -
  obtain out t where asg: "assignTrackingIds this (toDetections now predictions) = (out, t)"
    by (cases "assignTrackingIds this (toDetections now predictions)")
  have run: "detectObjects this imageElement now = (Inr out, t\<lparr>previousDetections := out\<rparr>)"
    using loaded ok asg by (simp add: detectObjects_def)
  from detectObjects_frame [OF loaded ok, of now] run
  have len: "length out = length predictions"
    and nth: "\<And>j. j < length predictions \<Longrightarrow>
       out ! j = (toDetection now j (predictions ! j))
          \<lparr>trackId := assignedId (previousDetections this) (trackingId this)
                        (toDetections now predictions) j\<rparr>"
    by auto
  from asg have pt: "previousDetections this = previousDetections t"
    by (auto simp: assignTrackingIds_def split: prod.splits)
  have restore: "t\<lparr>previousDetections := out\<rparr>\<lparr>previousDetections := previousDetections this\<rparr> = t"
    unfolding pt by simp
  have erase: "map (\<lambda>d. d\<lparr>trackId := None\<rparr>) out = toDetections now predictions"
  proof (rule nth_equalityI)
    show "length (map (\<lambda>d. d\<lparr>trackId := None\<rparr>) out) = length (toDetections now predictions)"
      using len by (simp add: toDetections_length)
  next
    fix j assume "j < length (map (\<lambda>d. d\<lparr>trackId := None\<rparr>) out)"
    then have j: "j < length predictions" using len by simp
    then have "map (\<lambda>d. d\<lparr>trackId := None\<rparr>) out ! j = (out ! j)\<lparr>trackId := None\<rparr>"
      using len by simp
    also have "\<dots> = toDetection now j (predictions ! j)"
      unfolding nth [OF j] by (rule erase_trackId)
    finally show "map (\<lambda>d. d\<lparr>trackId := None\<rparr>) out ! j = toDetections now predictions ! j"
      using j by (simp add: toDetections_nth)
  qed
  have none: "\<forall>d\<in>set (toDetections now predictions). trackId d = None"
    by (auto simp: in_set_conv_nth toDetections_length toDetections_nth toDetection_no_trackId)
  have each: "\<forall>j<length predictions.
         toDetections now predictions ! j = toDetection now j (predictions ! j)"
    by (simp add: toDetections_nth)
  have "detectObjects this imageElement now = (Inr out, t\<lparr>previousDetections := out\<rparr>)
   \<and> (out, t\<lparr>previousDetections := out\<rparr>\<lparr>previousDetections := previousDetections this\<rparr>)
        = assignTrackingIds this (toDetections now predictions)
   \<and> previousDetections (t\<lparr>previousDetections := out\<rparr>) = out
   \<and> map (\<lambda>d. d\<lparr>trackId := None\<rparr>) out = toDetections now predictions
   \<and> (\<forall>d\<in>set (toDetections now predictions). trackId d = None)
   \<and> (\<forall>j<length predictions.
         toDetections now predictions ! j = toDetection now j (predictions ! j))"
    using run asg restore erase none each by simp
  then show ?thesis by (intro exI)
qed

theorem adapter_step_is_pure_witness:
  "model after_first_frame = Some stub_model
   \<and> stub_model (Some second_frame) = Inr second_frame
   \<and> (\<exists>out this'. detectObjects after_first_frame (Some second_frame) 2000 = (Inr out, this')
        \<and> map (\<lambda>d. d\<lparr>trackId := None\<rparr>) out = toDetections 2000 second_frame
        \<and> map label out = [''person'', ''car'']
        \<and> map centerX out = [135, 125]
        \<and> previousDetections this' = out)
   \<and> map trackId (toDetections 2000 second_frame) = [None, None]"
proof -
  have m: "model after_first_frame = Some stub_model" by (simp add: after_first_frame_eq)
  have ok: "stub_model (Some second_frame) = Inr second_frame" by (simp add: stub_model_def)
  from adapter_step_is_pure [OF m ok, of 2000]
  obtain out this' where run: "detectObjects after_first_frame (Some second_frame) 2000 = (Inr out, this')"
    and prev: "previousDetections this' = out"
    and erase: "map (\<lambda>d. d\<lparr>trackId := None\<rparr>) out = toDetections 2000 second_frame"
    and none: "\<forall>d\<in>set (toDetections 2000 second_frame). trackId d = None"
    by blast
  have "map label (map (\<lambda>d. d\<lparr>trackId := None\<rparr>) out) = map label out"
    "map centerX (map (\<lambda>d. d\<lparr>trackId := None\<rparr>) out) = map centerX out"
    by (simp_all add: comp_def)
  with erase second_dets have "map label out = [''person'', ''car'']" "map centerX out = [135, 125]"
    by simp_all
  moreover have "length (toDetections 2000 second_frame) = 2"
    by (simp add: toDetections_length second_frame_def)
  with none have "map trackId (toDetections 2000 second_frame) = [None, None]"
    by (cases "toDetections 2000 second_frame"; cases "tl (toDetections 2000 second_frame)") auto
  ultimately show ?thesis using m ok run prev erase
    by (intro conjI exI [of _ out] exI [of _ this']) simp_all
qed

text \<open>
  Claim C10. When the model is loaded and its \<open>detect\<close> call throws, \<open>detectObjects\<close> returns
  the empty list and the detector state is unchanged: the counter keeps its value and the
  stored previous detections are still those of the last successful frame.
\<close>

theorem failed_frame_keeps_tracker_state:
  assumes "model this = Some m" and "m imageElement = Inl e"
  shows "detectObjects this imageElement now = (Inr [], this)
     \<and> trackingId (snd (detectObjects this imageElement now)) = trackingId this
     \<and> previousDetections (snd (detectObjects this imageElement now)) = previousDetections this"
  using assms by (simp add: detectObjects_model_error)

theorem failed_frame_keeps_tracker_state_witness:
  "model after_first_frame = Some stub_model
   \<and> stub_model None = Inl (Error ''inference failed'')
   \<and> fst (detectObjects after_first_frame None 2000) = Inr []
   \<and> trackingId (snd (detectObjects after_first_frame None 2000)) = 1
   \<and> previousDetections (snd (detectObjects after_first_frame None 2000)) = first_frame
   \<and> first_frame \<noteq> []"
proof -
  have m: "model after_first_frame = Some stub_model" by (simp add: after_first_frame_eq)
  have f: "stub_model None = Inl (Error ''inference failed'')" by (simp add: stub_model_def)
  from failed_frame_keeps_tracker_state [OF m f, of 2000] m f show ?thesis
    by (simp add: after_first_frame_eq first_frame_def)
qed

end
